theory Spec2Isabelle
  imports Main "HOL-Library.Sublist"
begin

section \<open>Values, rows and errors\<close>

text \<open>
  A row of the \<^verbatim>\<open>participants\<close> table arrives as a Python dict from column name to a
  JSON value. The code only ever tests a value for equality with the string \<^verbatim>\<open>"Yes"\<close>,
  copies it, or calls \<^verbatim>\<open>.split()\<close> on it, so the value type keeps the JSON shapes apart.
\<close>

datatype jval = JNull | JBool bool | JInt int | JStr string | JList "jval list"

type_synonym row = "string \<rightharpoonup> jval"

text \<open>
  Every exception the two files can raise. \<open>StoreError\<close> stands for whatever the store
  client raises when the table cannot be read.
\<close>

datatype error = StoreError | KeyError string | AttributeError | IndexError | ZeroDivisionError

text \<open>\<^verbatim>\<open>row.get(key, default)\<close> and \<^verbatim>\<open>row[key]\<close>.\<close>

definition row_get :: "row \<Rightarrow> string \<Rightarrow> jval \<Rightarrow> jval" where
  "row_get r k d = (case r k of None \<Rightarrow> d | Some v \<Rightarrow> v)"

definition row_index :: "row \<Rightarrow> string \<Rightarrow> error + jval" where
  "row_index r k = (case r k of None \<Rightarrow> Inl (KeyError k) | Some v \<Rightarrow> Inr v)"

text \<open>\<^verbatim>\<open>row.get(lab) == "Yes"\<close>: a missing key gives \<^verbatim>\<open>None\<close>, which is not \<^verbatim>\<open>"Yes"\<close>.\<close>

definition is_yes :: "row \<Rightarrow> string \<Rightarrow> bool" where
  "is_yes r lab = (r lab = Some (JStr ''Yes''))"

section \<open>The lab catalog\<close>

definition LABS :: "string list" where
  "LABS =
    [''The Basics of Google Cloud Compute'', ''Get Started with Cloud Storage'',
     ''Get Started with Pub_Sub'', ''Get Started with API Gateway'',
     ''Get Started with Looker'', ''Get Started with Dataplex'',
     ''Get Started with Google Workspace Tools'', ''App Building with AppSheet'',
     ''Develop with Apps Script and AppSheet'',
     ''Develop GenAI Apps with Gemini and Streamlit'',
     ''Build a Website on Google Cloud'', ''Set Up a Google Cloud Network'',
     ''Store, Process, and Manage Data on Google Cloud - Console'',
     ''Cloud Run Functions: 3 Ways'', ''App Engine: 3 Ways'',
     ''Cloud Speech API: 3 Ways'', ''Analyze Speech and Language with Google APIs'',
     ''Monitoring in Google Cloud'', ''Prompt Design in Vertex AI'']"

section \<open>Strings: \<^verbatim>\<open>str.split()\<close>, \<^verbatim>\<open>str.upper()\<close>, indexing\<close>

text \<open>
  Names are modelled as ASCII strings, one \<open>char\<close> per character. The whitespace of
  \<^verbatim>\<open>str.split()\<close> in that range is TAB, LF, VT, FF, CR, the four separators
  \<open>0x1C\<close> to \<open>0x1F\<close>, and the space.
\<close>

definition isspace :: "char \<Rightarrow> bool" where
  "isspace c = (let n = (of_char c :: nat) in (9 \<le> n \<and> n \<le> 13) \<or> (28 \<le> n \<and> n \<le> 32))"

text \<open>
  \<^verbatim>\<open>s.split()\<close> with no separator: skip a run of whitespace, stop at the end of the
  string, otherwise take the maximal run of non-whitespace as the next token.
\<close>

function split :: "string \<Rightarrow> string list" where
  "split s =
     (case dropWhile isspace s of
        [] \<Rightarrow> []
      | c # cs \<Rightarrow> (c # takeWhile (\<lambda>x. \<not> isspace x) cs) # split (dropWhile (\<lambda>x. \<not> isspace x) cs))"
  by pat_completeness auto
termination
proof (relation "measure length")
  show "wf (measure length)" by simp
next
  fix s :: string and c cs
  assume "dropWhile isspace s = c # cs"
  then have "length (c # cs) \<le> length s"
    by (metis length_dropWhile_le)
  moreover have "length (dropWhile (\<lambda>x. \<not> isspace x) cs) \<le> length cs"
    by (rule length_dropWhile_le)
  ultimately show "(dropWhile (\<lambda>x. \<not> isspace x) cs, s) \<in> measure length"
    by simp
qed

declare split.simps [simp del]

definition upper_char :: "char \<Rightarrow> char" where
  "upper_char c =
     (let n = (of_char c :: nat) in if 97 \<le> n \<and> n \<le> 122 then char_of (n - 32) else c)"

definition upper :: "string \<Rightarrow> string" where
  "upper s = map upper_char s"

text \<open>\<^verbatim>\<open>s[0]\<close>: the one-character string at index 0, \<^verbatim>\<open>IndexError\<close> on the empty string.\<close>

definition str_first :: "string \<Rightarrow> error + string" where
  "str_first s = (case s of [] \<Rightarrow> Inl IndexError | c # _ \<Rightarrow> Inr [c])"

text \<open>
  \<^verbatim>\<open>get_initials(name)\<close>, the same text in both files. A value that is not a string has
  no \<^verbatim>\<open>split\<close> method.
\<close>

definition get_initials :: "jval \<Rightarrow> error + string" where
  "get_initials name =
     (case name of
        JStr s \<Rightarrow>
          (let parts = split s in
           if length parts > 1 then
             (case str_first (parts ! 0) of
                Inl e \<Rightarrow> Inl e
              | Inr a \<Rightarrow>
                  (case str_first (parts ! 1) of
                     Inl e \<Rightarrow> Inl e
                   | Inr b \<Rightarrow> Inr (upper a @ upper b)))
           else if parts \<noteq> [] then
             (case str_first (parts ! 0) of
                Inl e \<Rightarrow> Inl e
              | Inr a \<Rightarrow> Inr (upper a))
           else Inr [])
      | _ \<Rightarrow> Inl AttributeError)"

section \<open>Python floats: true division, multiplication, \<^verbatim>\<open>round\<close>\<close>

text \<open>
  A double is a pair \<open>(m, e)\<close> of integers standing for \<open>m * 2 ^ e\<close>. Each operation
  computes the exact result and rounds it once to 53 significant bits, ties to even, as
  IEEE 754 binary64 does (the values here stay far from overflow and underflow).
\<close>

type_synonym float = "int \<times> int"

text \<open>\<^verbatim>\<open>int.bit_length()\<close>: the number of bits of the absolute value.\<close>

function bit_length :: "int \<Rightarrow> int" where
  "bit_length n = (if n = 0 then 0 else 1 + bit_length (\<bar>n\<bar> div 2))"
  by pat_completeness auto
termination
  by (relation "measure (\<lambda>n. nat \<bar>n\<bar>)") auto

declare bit_length.simps [simp del]

text \<open>
  The quotient \<open>n / d\<close> for \<open>d > 0\<close>, rounded to the nearest integer, ties to the
  even one.
\<close>

definition rne_div :: "int \<Rightarrow> int \<Rightarrow> int" where
  "rne_div n d =
     (let q = n div d; r = n mod d in
      if 2 * r < d then q
      else if d < 2 * r then q + 1
      else if even q then q else q + 1)"

text \<open>
  \<^verbatim>\<open>p / q\<close> on two ints, \<^verbatim>\<open>q\<close> non-zero: the correctly rounded quotient. The scale
  \<open>k\<close> is chosen so that the scaled quotient has exactly 53 bits before rounding.
\<close>

definition fl_quot :: "int \<Rightarrow> int \<Rightarrow> float" where
  "fl_quot p q =
     (if p = 0 then (0, 0)
      else
        let a = \<bar>p\<bar>; b = \<bar>q\<bar>;
            k0 = 53 + bit_length b - bit_length a;
            big = (if 0 \<le> k0 then b * 2 ^ 53 \<le> a * 2 ^ nat k0
                   else b * 2 ^ 53 * 2 ^ nat (- k0) \<le> a);
            k = (if big then k0 - 1 else k0);
            m = (if 0 \<le> k then rne_div (a * 2 ^ nat k) b else rne_div a (b * 2 ^ nat (- k)))
        in (sgn p * sgn q * m, - k))"

definition py_truediv :: "int \<Rightarrow> int \<Rightarrow> error + float" where
  "py_truediv p q = (if q = 0 then Inl ZeroDivisionError else Inr (fl_quot p q))"

text \<open>\<^verbatim>\<open>x * c\<close> for a double \<^verbatim>\<open>x\<close> and a small int \<^verbatim>\<open>c\<close> (one that is a double exactly).\<close>

definition fl_mul :: "float \<Rightarrow> int \<Rightarrow> float" where
  "fl_mul x c =
     (let P = fst x * c; b = bit_length P in
      if b \<le> 53 then (P, snd x)
      else (rne_div P (2 ^ nat (b - 53)), snd x + (b - 53)))"

text \<open>\<^verbatim>\<open>round(x)\<close> with one argument: the nearest int, ties to even.\<close>

definition py_round :: "float \<Rightarrow> int" where
  "py_round x =
     (if 0 \<le> snd x then fst x * 2 ^ nat (snd x) else rne_div (fst x) (2 ^ nat (- snd x)))"

text \<open>\<^verbatim>\<open>round((a / b) * 100)\<close>.\<close>

definition round_pct :: "int \<Rightarrow> int \<Rightarrow> error + int" where
  "round_pct a b =
     (case py_truediv a b of Inl e \<Rightarrow> Inl e | Inr x \<Rightarrow> Inr (py_round (fl_mul x 100)))"

section \<open>Dictionaries of counters and the stable descending sort\<close>

text \<open>
  The per-lab counters are a Python dict from lab name to int. A dict keeps its keys in
  insertion order, and \<^verbatim>\<open>.items()\<close> lists them in that order, so it is an association
  list with one entry per key: storing under a present key replaces the value in place,
  storing under a new key appends.
\<close>

type_synonym counts = "(string \<times> nat) list"

fun dict_set :: "counts \<Rightarrow> string \<Rightarrow> nat \<Rightarrow> counts" where
  "dict_set [] k v = [(k, v)]"
| "dict_set ((k', v') # d) k v = (if k' = k then (k', v) # d else (k', v') # dict_set d k v)"

fun dict_get :: "counts \<Rightarrow> string \<Rightarrow> error + nat" where
  "dict_get [] k = Inl (KeyError k)"
| "dict_get ((k', v') # d) k = (if k' = k then Inr v' else dict_get d k)"

text \<open>\<^verbatim>\<open>{lab: 0 for lab in LABS}\<close>.\<close>

definition zero_counts :: "string list \<Rightarrow> counts" where
  "zero_counts labs = foldl (\<lambda>d lab. dict_set d lab 0) [] labs"

text \<open>\<^verbatim>\<open>d[lab] += 1\<close>: reads the entry first, so a missing key raises.\<close>

definition dict_incr :: "counts \<Rightarrow> string \<Rightarrow> error + counts" where
  "dict_incr d lab = (case dict_get d lab of Inl e \<Rightarrow> Inl e | Inr c \<Rightarrow> Inr (dict_set d lab (c + 1)))"

text \<open>
  \<^verbatim>\<open>xs.sort(key=f, reverse=True)\<close> and \<^verbatim>\<open>sorted(xs, key=f, reverse=True)\<close>: Python's sort
  is stable, and \<^verbatim>\<open>reverse=True\<close> keeps elements with equal keys in their original
  order. Insertion from the right, in front of the first element whose key is not
  larger, is such a sort.
\<close>

fun insort_desc :: "('a \<Rightarrow> nat) \<Rightarrow> 'a \<Rightarrow> 'a list \<Rightarrow> 'a list" where
  "insort_desc f x [] = [x]"
| "insort_desc f x (y # ys) = (if f y \<le> f x then x # y # ys else y # insort_desc f x ys)"

definition sort_desc :: "('a \<Rightarrow> nat) \<Rightarrow> 'a list \<Rightarrow> 'a list" where
  "sort_desc f xs = foldr (insort_desc f) xs []"

section \<open>The aggregator of \<^verbatim>\<open>app.py\<close>\<close>

text \<open>
  The dict appended to \<^verbatim>\<open>processed_participants\<close> (keys \<^verbatim>\<open>name\<close>, \<^verbatim>\<open>email\<close>,
  \<^verbatim>\<open>completed_labs\<close>, \<^verbatim>\<open>name_of_completed_labs\<close>), and the same dict after step 5 has
  added \<^verbatim>\<open>rank\<close>, \<^verbatim>\<open>initials\<close>, \<^verbatim>\<open>badge_count\<close> and \<^verbatim>\<open>completion_percentage\<close>.
\<close>

record summary =
  name :: jval
  email :: jval
  completed_labs :: nat
  name_of_completed_labs :: "string list"

record participant = summary +
  rank :: nat
  initials :: string
  badge_count :: nat
  completion_percentage :: int

text \<open>
  The inner loop over the catalog for one row: collects the completed labs and bumps
  their counters.
\<close>

fun scan_labs :: "row \<Rightarrow> string list \<Rightarrow> string list \<Rightarrow> counts \<Rightarrow> error + (string list \<times> counts)" where
  "scan_labs r [] completed_labs_list lab_completion_counts =
     Inr (completed_labs_list, lab_completion_counts)"
| "scan_labs r (lab # labs) completed_labs_list lab_completion_counts =
     (if r lab = Some (JStr ''Yes'') then
        (case dict_incr lab_completion_counts lab of
           Inl e \<Rightarrow> Inl e
         | Inr counts' \<Rightarrow> scan_labs r labs (completed_labs_list @ [lab]) counts')
      else scan_labs r labs completed_labs_list lab_completion_counts)"

text \<open>Step 3: the loop over the rows.\<close>

fun process_rows ::
  "string list \<Rightarrow> row list \<Rightarrow> summary list \<Rightarrow> counts \<Rightarrow> error + (summary list \<times> counts)" where
  "process_rows labs [] processed_participants lab_completion_counts =
     Inr (processed_participants, lab_completion_counts)"
| "process_rows labs (r # rows) processed_participants lab_completion_counts =
     (case scan_labs r labs [] lab_completion_counts of
        Inl e \<Rightarrow> Inl e
      | Inr (completed_labs_list, counts') \<Rightarrow>
          process_rows labs rows
            (processed_participants @
              [\<lparr>name = row_get r ''name'' (JStr ''N/A''),
                email = row_get r ''email'' (JStr ''N/A''),
                completed_labs = length completed_labs_list,
                name_of_completed_labs = completed_labs_list\<rparr>])
            counts')"

text \<open>
  \<^verbatim>\<open>round((user['completed_labs'] / len(LABS)) * 100) if LABS else 0\<close>.
\<close>

definition percentage_guarded :: "string list \<Rightarrow> nat \<Rightarrow> error + int" where
  "percentage_guarded labs c =
     (if labs \<noteq> [] then round_pct (int c) (int (length labs)) else Inr 0)"

text \<open>Step 5: the loop over \<^verbatim>\<open>enumerate(processed_participants, start=1)\<close>.\<close>

fun add_derived :: "string list \<Rightarrow> nat \<Rightarrow> summary list \<Rightarrow> error + participant list" where
  "add_derived labs rk [] = Inr []"
| "add_derived labs rk (user # users) =
     (case get_initials (name user) of
        Inl e \<Rightarrow> Inl e
      | Inr ini \<Rightarrow>
          (case percentage_guarded labs (completed_labs user) of
             Inl e \<Rightarrow> Inl e
           | Inr pct \<Rightarrow>
               (case add_derived labs (Suc rk) users of
                  Inl e \<Rightarrow> Inl e
                | Inr rest \<Rightarrow>
                    Inr (\<lparr>name = name user, email = email user,
                          completed_labs = completed_labs user,
                          name_of_completed_labs = name_of_completed_labs user,
                          rank = rk, initials = ini,
                          badge_count = completed_labs user,
                          completion_percentage = pct\<rparr> # rest))))"

text \<open>
  \<^verbatim>\<open>get_processed_participant_data()\<close>. The catalog is a parameter (the global
  \<^verbatim>\<open>LABS\<close> in the source), and so is the outcome of the single read of the store:
  the rows, or the exception the client raised. Any exception of the read is caught.
\<close>

definition get_processed_participant_data ::
  "string list \<Rightarrow> error + row list \<Rightarrow> error + (participant list \<times> counts)" where
  "get_processed_participant_data labs fetched =
     (case fetched of
        Inl e \<Rightarrow> Inr ([], zero_counts labs)
      | Inr all_participants_raw \<Rightarrow>
          (case process_rows labs all_participants_raw [] (zero_counts labs) of
             Inl e \<Rightarrow> Inl e
           | Inr (processed_participants, lab_completion_counts) \<Rightarrow>
               (case add_derived labs 1 (sort_desc completed_labs processed_participants) of
                  Inl e \<Rightarrow> Inl e
                | Inr final_participant_data \<Rightarrow>
                    Inr (final_participant_data, lab_completion_counts))))"

section \<open>The endpoints of \<^verbatim>\<open>app.py\<close>\<close>

record top_performer_t =
  tp_name :: jval
  tp_initials :: string
  tp_badges :: nat

record home_data =
  total_participants :: nat
  home_completion_percentage :: int
  average_progress :: int
  top_performer :: top_performer_t
  badge_completion_rate :: counts
  badge_popularity :: "(string \<times> nat) list"

definition no_top_performer :: top_performer_t where
  "no_top_performer = \<lparr>tp_name = JStr ''N/A'', tp_initials = ''N/A'', tp_badges = 0\<rparr>"

text \<open>\<^verbatim>\<open>get_stats()\<close>, the view function of \<^verbatim>\<open>/api/home-data\<close>.\<close>

definition get_stats :: "string list \<Rightarrow> error + row list \<Rightarrow> error + home_data" where
  "get_stats labs fetched =
     (case get_processed_participant_data labs fetched of
        Inl e \<Rightarrow> Inl e
      | Inr (participant_data, rate) \<Rightarrow>
          (let total = length participant_data in
           if total = 0 then
             Inr \<lparr>total_participants = 0, home_completion_percentage = 0,
                  average_progress = 0, top_performer = no_top_performer,
                  badge_completion_rate = rate, badge_popularity = []\<rparr>
           else
             (let total_completed_all =
                    length (filter (\<lambda>p. completed_labs p = length labs) participant_data)
              in case py_truediv (int total_completed_all) (int total) of
                   Inl e \<Rightarrow> Inl e
                 | Inr frac \<Rightarrow>
                     (let completion = fl_mul frac 100;
                          total_badges = sum_list (map completed_labs participant_data)
                      in case py_truediv (int total_badges) (int total) of
                           Inl e \<Rightarrow> Inl e
                         | Inr average \<Rightarrow>
                             (case participant_data of
                                [] \<Rightarrow> Inl IndexError
                              | top_performer_data # _ \<Rightarrow>
                                  Inr \<lparr>total_participants = total,
                                       home_completion_percentage = py_round completion,
                                       average_progress = py_round average,
                                       top_performer =
                                         (if completed_labs top_performer_data > 0 then
                                            \<lparr>tp_name = name top_performer_data,
                                             tp_initials = initials top_performer_data,
                                             tp_badges = completed_labs top_performer_data\<rparr>
                                          else no_top_performer),
                                       badge_completion_rate = rate,
                                       badge_popularity = take 6 (sort_desc snd rate)\<rparr>)))))"

text \<open>\<^verbatim>\<open>get_progress_data()\<close>, the view function of \<^verbatim>\<open>/api/progress-data\<close>.\<close>

definition get_progress_data ::
  "string list \<Rightarrow> error + row list \<Rightarrow> error + (string list \<times> participant list)" where
  "get_progress_data labs fetched =
     (case get_processed_participant_data labs fetched of
        Inl e \<Rightarrow> Inl e
      | Inr (participant_data, _) \<Rightarrow> Inr (labs, participant_data))"

text \<open>
  What the web framework makes of a view function: the JSON body with status 200 when
  it returns, status 500 when an exception escapes it.
\<close>

definition http_status :: "error + 'a \<Rightarrow> nat" where
  "http_status res = (case res of Inl e \<Rightarrow> 500 | Inr body \<Rightarrow> 200)"

section \<open>The older copy, \<^verbatim>\<open>GDG-Study-Jam-Leaderboard-main/app.py\<close>\<close>

text \<open>
  The nested file holds an earlier version of the same application. Its catalog is
  written twice, as the global \<^verbatim>\<open>LABS\<close> and as the local \<^verbatim>\<open>LAB_NAMES\<close> of
  \<^verbatim>\<open>get_participant_data\<close>, with the same 19 names.
\<close>

definition LAB_NAMES :: "string list" where
  "LAB_NAMES =
    [''The Basics of Google Cloud Compute'',
     ''Get Started with Cloud Storage'',
     ''Get Started with Pub_Sub'',
     ''Get Started with API Gateway'',
     ''Get Started with Looker'',
     ''Get Started with Dataplex'',
     ''Get Started with Google Workspace Tools'',
     ''App Building with AppSheet'',
     ''Develop with Apps Script and AppSheet'',
     ''Develop GenAI Apps with Gemini and Streamlit'',
     ''Build a Website on Google Cloud'',
     ''Set Up a Google Cloud Network'',
     ''Store, Process, and Manage Data on Google Cloud - Console'',
     ''Cloud Run Functions: 3 Ways'',
     ''App Engine: 3 Ways'',
     ''Cloud Speech API: 3 Ways'',
     ''Analyze Speech and Language with Google APIs'',
     ''Monitoring in Google Cloud'',
     ''Prompt Design in Vertex AI'']"

text \<open>
  The dicts of \<^verbatim>\<open>ranking_list\<close> (keys \<^verbatim>\<open>name\<close>, \<^verbatim>\<open>email\<close>, \<^verbatim>\<open>completed\<close>,
  \<^verbatim>\<open>name_of_lab\<close>), those of \<^verbatim>\<open>participant_data\<close> (keys \<^verbatim>\<open>rank\<close>, \<^verbatim>\<open>name\<close>,
  \<^verbatim>\<open>initials\<close>, \<^verbatim>\<open>completed_labs\<close>, \<^verbatim>\<open>name_of_completed_labs\<close>; there is no
  \<^verbatim>\<open>email\<close> key), and the latter after \<^verbatim>\<open>get_progress_data\<close> has added
  \<^verbatim>\<open>badge_count\<close> and \<^verbatim>\<open>completion_percentage\<close>. The field names carry a prefix
  because the records of the newer file own the plain ones.
\<close>

record ranking =
  r_name :: jval
  r_email :: jval
  completed :: nat
  name_of_lab :: "string list"

record participant_main =
  m_rank :: nat
  m_name :: jval
  m_initials :: string
  m_completed_labs :: nat
  m_name_of_completed_labs :: "string list"

record progress_main = participant_main +
  m_badge_count :: nat
  m_completion_percentage :: int

text \<open>The loop over the rows; \<^verbatim>\<open>row["name"]\<close> and \<^verbatim>\<open>row["email"]\<close> raise on a missing key.\<close>

fun ranking_rows :: "string list \<Rightarrow> row list \<Rightarrow> ranking list \<Rightarrow> error + ranking list" where
  "ranking_rows lab_names [] ranking_list = Inr ranking_list"
| "ranking_rows lab_names (r # rows) ranking_list =
     (let completed = sum_list (map (\<lambda>lab. 1) (filter (\<lambda>lab. r lab = Some (JStr ''Yes'')) lab_names));
          names_of_lab = foldl (\<lambda>acc lab. if r lab = Some (JStr ''Yes'') then acc @ [lab] else acc) [] lab_names
      in case row_index r ''name'' of
           Inl e \<Rightarrow> Inl e
         | Inr nm \<Rightarrow>
             (case row_index r ''email'' of
                Inl e \<Rightarrow> Inl e
              | Inr em \<Rightarrow>
                  ranking_rows lab_names rows
                    (ranking_list @
                      [\<lparr>r_name = nm, r_email = em, completed = completed,
                        name_of_lab = names_of_lab\<rparr>])))"

fun rank_users :: "nat \<Rightarrow> ranking list \<Rightarrow> error + participant_main list" where
  "rank_users rk [] = Inr []"
| "rank_users rk (user # users) =
     (case get_initials (r_name user) of
        Inl e \<Rightarrow> Inl e
      | Inr ini \<Rightarrow>
          (case rank_users (Suc rk) users of
             Inl e \<Rightarrow> Inl e
           | Inr rest \<Rightarrow>
               Inr (\<lparr>m_rank = rk, m_name = r_name user, m_initials = ini,
                     m_completed_labs = completed user,
                     m_name_of_completed_labs = name_of_lab user\<rparr> # rest)))"

text \<open>\<^verbatim>\<open>get_participant_data()\<close>: the read of the store is not guarded.\<close>

definition get_participant_data ::
  "string list \<Rightarrow> error + row list \<Rightarrow> error + participant_main list" where
  "get_participant_data lab_names fetched =
     (case fetched of
        Inl e \<Rightarrow> Inl e
      | Inr data \<Rightarrow>
          (case ranking_rows lab_names data [] of
             Inl e \<Rightarrow> Inl e
           | Inr ranking_list \<Rightarrow> rank_users 1 (sort_desc completed ranking_list)))"

text \<open>
  \<^verbatim>\<open>labs_completion_rate()\<close>: one counting query per lab,
  \<^verbatim>\<open>select("*", count="exact").eq(lab, "Yes")\<close>. The store answers every query of one
  request from the same table contents, the number of rows whose column is \<^verbatim>\<open>"Yes"\<close>,
  or fails.
\<close>

definition count_query :: "error + row list \<Rightarrow> string \<Rightarrow> error + nat" where
  "count_query fetched lab =
     (case fetched of
        Inl e \<Rightarrow> Inl e
      | Inr rows \<Rightarrow> Inr (length (filter (\<lambda>r. r lab = Some (JStr ''Yes'')) rows)))"

fun lab_counts_loop :: "error + row list \<Rightarrow> string list \<Rightarrow> counts \<Rightarrow> error + counts" where
  "lab_counts_loop fetched [] lab_counts = Inr lab_counts"
| "lab_counts_loop fetched (lab # labs) lab_counts =
     (case count_query fetched lab of
        Inl e \<Rightarrow> Inl e
      | Inr c \<Rightarrow> lab_counts_loop fetched labs (dict_set lab_counts lab c))"

definition labs_completion_rate :: "string list \<Rightarrow> error + row list \<Rightarrow> error + counts" where
  "labs_completion_rate labs fetched = lab_counts_loop fetched labs []"

text \<open>
  \<^verbatim>\<open>get_stats()\<close> of the older copy. With no participant both averages are the int
  \<^verbatim>\<open>0\<close>, which \<^verbatim>\<open>round\<close> leaves alone; it is the double \<open>(0, 0)\<close> here.
\<close>

definition get_stats_main ::
  "string list \<Rightarrow> string list \<Rightarrow> error + row list \<Rightarrow> error + home_data" where
  "get_stats_main labs lab_names fetched =
     (case get_participant_data lab_names fetched of
        Inl e \<Rightarrow> Inl e
      | Inr participant_data \<Rightarrow>
          (let total = length participant_data;
               total_possible = 20 * total;
               total_completed_all = sum_list (map m_completed_labs participant_data)
           in case (if total > 0 then
                      (case py_truediv (int total_completed_all) (int total_possible) of
                         Inl e \<Rightarrow> Inl e
                       | Inr frac \<Rightarrow> Inr (fl_mul frac 100))
                    else Inr (0, 0)) of
                Inl e \<Rightarrow> Inl e
              | Inr completion \<Rightarrow>
                  (let total_badges = sum_list (map m_completed_labs participant_data)
                   in case (if total > 0 then py_truediv (int total_badges) (int total)
                            else Inr (0, 0)) of
                        Inl e \<Rightarrow> Inl e
                      | Inr average \<Rightarrow>
                          (let top =
                                 (case find (\<lambda>i. m_rank i = 1 \<and> m_completed_labs i > 0)
                                         participant_data of
                                    Some i \<Rightarrow>
                                      \<lparr>tp_name = m_name i, tp_initials = m_initials i,
                                       tp_badges = m_completed_labs i\<rparr>
                                  | None \<Rightarrow> no_top_performer)
                           in case labs_completion_rate labs fetched of
                                Inl e \<Rightarrow> Inl e
                              | Inr rate \<Rightarrow>
                                  Inr \<lparr>total_participants = total,
                                       home_completion_percentage = py_round completion,
                                       average_progress = py_round average,
                                       top_performer = top,
                                       badge_completion_rate = rate,
                                       badge_popularity = take 6 (sort_desc snd rate)\<rparr>))))"

text \<open>
  \<^verbatim>\<open>get_progress_data()\<close> of the older copy: the percentage is computed here, with no
  guard for an empty catalog.
\<close>

fun add_progress :: "string list \<Rightarrow> participant_main list \<Rightarrow> error + progress_main list" where
  "add_progress labs [] = Inr []"
| "add_progress labs (p # ps) =
     (case round_pct (int (m_completed_labs p)) (int (length labs)) of
        Inl e \<Rightarrow> Inl e
      | Inr pct \<Rightarrow>
          (case add_progress labs ps of
             Inl e \<Rightarrow> Inl e
           | Inr rest \<Rightarrow>
               Inr (\<lparr>m_rank = m_rank p, m_name = m_name p, m_initials = m_initials p,
                     m_completed_labs = m_completed_labs p,
                     m_name_of_completed_labs = m_name_of_completed_labs p,
                     m_badge_count = m_completed_labs p,
                     m_completion_percentage = pct\<rparr> # rest)))"

definition get_progress_data_main ::
  "string list \<Rightarrow> string list \<Rightarrow> error + row list \<Rightarrow> error + (string list \<times> progress_main list)" where
  "get_progress_data_main labs lab_names fetched =
     (case get_participant_data lab_names fetched of
        Inl e \<Rightarrow> Inl e
      | Inr participant_data \<Rightarrow>
          (case add_progress labs participant_data of
             Inl e \<Rightarrow> Inl e
           | Inr ps \<Rightarrow> Inr (labs, ps)))"

section \<open>The participant dicts as the endpoints return them\<close>

text \<open>
  The records above fix the keys of each dict. To compare the two files' outputs the
  dicts themselves are needed: a finite map from key to JSON value.
\<close>

definition as_dict :: "participant \<Rightarrow> (string \<rightharpoonup> jval)" where
  "as_dict p =
     [''name'' \<mapsto> name p,
      ''email'' \<mapsto> email p,
      ''completed_labs'' \<mapsto> JInt (int (completed_labs p)),
      ''name_of_completed_labs'' \<mapsto> JList (map JStr (name_of_completed_labs p)),
      ''rank'' \<mapsto> JInt (int (rank p)),
      ''initials'' \<mapsto> JStr (initials p),
      ''badge_count'' \<mapsto> JInt (int (badge_count p)),
      ''completion_percentage'' \<mapsto> JInt (completion_percentage p)]"

definition as_dict_main :: "progress_main \<Rightarrow> (string \<rightharpoonup> jval)" where
  "as_dict_main p =
     [''rank'' \<mapsto> JInt (int (m_rank p)),
      ''name'' \<mapsto> m_name p,
      ''initials'' \<mapsto> JStr (m_initials p),
      ''completed_labs'' \<mapsto> JInt (int (m_completed_labs p)),
      ''name_of_completed_labs'' \<mapsto> JList (map JStr (m_name_of_completed_labs p)),
      ''badge_count'' \<mapsto> JInt (int (m_badge_count p)),
      ''completion_percentage'' \<mapsto> JInt (m_completion_percentage p)]"

section \<open>Reference notions for the statements\<close>

text \<open>The catalog labs a row has marked \<^verbatim>\<open>"Yes"\<close>, in catalog order.\<close>

definition yes_labs :: "row \<Rightarrow> string list \<Rightarrow> string list" where
  "yes_labs r labs = filter (\<lambda>lab. r lab = Some (JStr ''Yes'')) labs"

text \<open>The dict that step 3 of \<^verbatim>\<open>get_processed_participant_data\<close> builds for one row.\<close>

definition summarise :: "string list \<Rightarrow> row \<Rightarrow> summary" where
  "summarise labs r =
     \<lparr>name = row_get r ''name'' (JStr ''N/A''),
      email = row_get r ''email'' (JStr ''N/A''),
      completed_labs = length (yes_labs r labs),
      name_of_completed_labs = yes_labs r labs\<rparr>"


text \<open>
  The dicts of the older copy that carry the same values as a dict of the newer file:
  the entry of \<^verbatim>\<open>ranking_list\<close>, the entry of \<^verbatim>\<open>participant_data\<close>, and the
  latter with the two fields \<^verbatim>\<open>get_progress_data\<close> adds. None has an \<^verbatim>\<open>email\<close> key
  except the first.
\<close>

definition to_ranking :: "summary \<Rightarrow> ranking" where
  "to_ranking u = \<lparr>r_name = name u, r_email = email u, completed = completed_labs u,
                   name_of_lab = name_of_completed_labs u\<rparr>"

definition to_main :: "participant \<Rightarrow> participant_main" where
  "to_main p = \<lparr>m_rank = rank p, m_name = name p, m_initials = initials p,
                m_completed_labs = completed_labs p,
                m_name_of_completed_labs = name_of_completed_labs p\<rparr>"

definition to_progress :: "participant \<Rightarrow> progress_main" where
  "to_progress p = \<lparr>m_rank = rank p, m_name = name p, m_initials = initials p,
                m_completed_labs = completed_labs p,
                m_name_of_completed_labs = name_of_completed_labs p,
                m_badge_count = badge_count p,
                m_completion_percentage = completion_percentage p\<rparr>"

text \<open>The number of rows that have every lab of the catalog marked \<^verbatim>\<open>"Yes"\<close>.\<close>

definition fully_finished :: "string list \<Rightarrow> row list \<Rightarrow> nat" where
  "fully_finished labs raw = length (filter (\<lambda>r. length (yes_labs r labs) = length labs) raw)"

text \<open>The canonical payload of \<^verbatim>\<open>/api/home-data\<close> when there is no participant.\<close>

definition empty_home :: "counts \<Rightarrow> home_data" where
  "empty_home rate =
     \<lparr>total_participants = 0, home_completion_percentage = 0, average_progress = 0,
      top_performer = no_top_performer, badge_completion_rate = rate, badge_popularity = []\<rparr>"

text \<open>
  Two rows for the examples: participant A has completed all 19 labs of the catalog,
  participant B none.
\<close>

definition row_A :: row where
  "row_A = (\<lambda>k. if k = ''name'' then Some (JStr ''A'')
               else if k = ''email'' then Some (JStr ''a@example.org'')
               else if k \<in> set LABS then Some (JStr ''Yes'') else None)"

definition row_B :: row where
  "row_B = [''name'' \<mapsto> JStr ''B'', ''email'' \<mapsto> JStr ''b@example.org'']"

text \<open>
  What identifies a participant in the output of either file, apart from the derived
  fields: name, completed-count and the list of completed labs.
\<close>

definition shown :: "'a summary_scheme \<Rightarrow> jval \<times> nat \<times> string list" where
  "shown u = (name u, completed_labs u, name_of_completed_labs u)"

definition shown_main :: "'a participant_main_scheme \<Rightarrow> jval \<times> nat \<times> string list" where
  "shown_main m = (m_name m, m_completed_labs m, m_name_of_completed_labs m)"

text \<open>A row that has both keys the older copy indexes.\<close>

definition has_keys :: "row \<Rightarrow> bool" where
  "has_keys r = (r ''name'' \<noteq> None \<and> r ''email'' \<noteq> None)"

text \<open>
  A small catalog and five rows for the examples. C, D and E have both keys; F has no
  name and a lab column that is not a string; G has no email and no lab column.
\<close>

definition demo_labs :: "string list" where
  "demo_labs = [''Get Started with Looker'', ''Monitoring in Google Cloud'']"

definition row_C :: row where
  "row_C = [''name'' \<mapsto> JStr ''Cy Young'', ''email'' \<mapsto> JStr ''c@example.org'',
            ''Get Started with Looker'' \<mapsto> JStr ''Yes'']"

definition row_D :: row where
  "row_D = [''name'' \<mapsto> JStr ''dee'', ''email'' \<mapsto> JStr ''d@example.org'',
            ''Get Started with Looker'' \<mapsto> JStr ''No'',
            ''Monitoring in Google Cloud'' \<mapsto> JStr ''Yes'']"

definition row_E :: row where
  "row_E = [''name'' \<mapsto> JStr ''Eve'', ''email'' \<mapsto> JStr ''e@example.org'',
            ''Get Started with Looker'' \<mapsto> JStr ''Yes'',
            ''Monitoring in Google Cloud'' \<mapsto> JStr ''Yes'']"

definition row_F :: row where
  "row_F = [''email'' \<mapsto> JStr ''f@example.org'', ''Get Started with Looker'' \<mapsto> JStr ''Yes'',
            ''Monitoring in Google Cloud'' \<mapsto> JBool True]"

definition row_G :: row where
  "row_G = [''name'' \<mapsto> JStr ''Gus'']"

definition demo_rows :: "row list" where
  "demo_rows = [row_C, row_D, row_E]"

definition demo_out :: "participant list" where
  "demo_out =
     [\<lparr>name = JStr ''Eve'', email = JStr ''e@example.org'', completed_labs = 2,
       name_of_completed_labs = [''Get Started with Looker'', ''Monitoring in Google Cloud''],
       rank = 1, initials = ''E'', badge_count = 2, completion_percentage = 100\<rparr>,
      \<lparr>name = JStr ''Cy Young'', email = JStr ''c@example.org'', completed_labs = 1,
       name_of_completed_labs = [''Get Started with Looker''],
       rank = 2, initials = ''CY'', badge_count = 1, completion_percentage = 50\<rparr>,
      \<lparr>name = JStr ''dee'', email = JStr ''d@example.org'', completed_labs = 1,
       name_of_completed_labs = [''Monitoring in Google Cloud''],
       rank = 3, initials = ''D'', badge_count = 1, completion_percentage = 50\<rparr>]"

definition demo_counts :: counts where
  "demo_counts = [(''Get Started with Looker'', 2), (''Monitoring in Google Cloud'', 2)]"

definition demo_out_main :: "participant_main list" where
  "demo_out_main =
     [\<lparr>m_rank = 1, m_name = JStr ''Eve'', m_initials = ''E'', m_completed_labs = 2,
       m_name_of_completed_labs = [''Get Started with Looker'', ''Monitoring in Google Cloud'']\<rparr>,
      \<lparr>m_rank = 2, m_name = JStr ''Cy Young'', m_initials = ''CY'', m_completed_labs = 1,
       m_name_of_completed_labs = [''Get Started with Looker'']\<rparr>,
      \<lparr>m_rank = 3, m_name = JStr ''dee'', m_initials = ''D'', m_completed_labs = 1,
       m_name_of_completed_labs = [''Monitoring in Google Cloud'']\<rparr>]"

section \<open>Auxiliary facts\<close>

subsection \<open>Counters and the loops over rows and labs\<close>

lemma keys_dict_set:
  "map fst (dict_set d k v) = (if k \<in> fst ` set d then map fst d else map fst d @ [k])"
  by (induction d) force+

lemma dict_get_present:
  "k \<in> fst ` set d \<Longrightarrow> \<exists>c. dict_get d k = Inr c"
  by (induction d) force+

lemma sum_dict_set:
  "dict_get d k = Inr c \<Longrightarrow> sum_list (map snd (dict_set d k v)) + c = sum_list (map snd d) + v"
  by (induction d) (auto split: if_splits)

lemma dict_incr_present:
  assumes "k \<in> fst ` set d"
  shows "\<exists>d'. dict_incr d k = Inr d' \<and> map fst d' = map fst d
           \<and> sum_list (map snd d') = Suc (sum_list (map snd d))"
proof -
  from assms obtain c where c: "dict_get d k = Inr c"
    using dict_get_present by blast
  have "sum_list (map snd (dict_set d k (c + 1))) + c = sum_list (map snd d) + (c + 1)"
    using c by (rule sum_dict_set)
  then show ?thesis
    using c assms by (simp add: dict_incr_def keys_dict_set)
qed

lemma scan_labs_result:
  "set labs \<subseteq> fst ` set cs \<Longrightarrow>
   \<exists>cs'. scan_labs r labs acc cs = Inr (acc @ yes_labs r labs, cs')
        \<and> map fst cs' = map fst cs
        \<and> sum_list (map snd cs') = sum_list (map snd cs) + length (yes_labs r labs)"
proof (induction labs arbitrary: acc cs)
  case Nil
  then show ?case by (simp add: yes_labs_def)
next
  case (Cons lab labs)
  show ?case
  proof (cases "r lab = Some (JStr ''Yes'')")
    case True
    from Cons.prems have "lab \<in> fst ` set cs" by simp
    then obtain d' where d': "dict_incr cs lab = Inr d'" "map fst d' = map fst cs"
        "sum_list (map snd d') = Suc (sum_list (map snd cs))"
      using dict_incr_present by blast
    from d'(2) have "fst ` set d' = fst ` set cs" by (metis set_map)
    with Cons.prems have "set labs \<subseteq> fst ` set d'" by simp
    from Cons.IH[OF this, of "acc @ [lab]"] obtain cs' where
      "scan_labs r labs (acc @ [lab]) d' = Inr ((acc @ [lab]) @ yes_labs r labs, cs')"
      "map fst cs' = map fst d'"
      "sum_list (map snd cs') = sum_list (map snd d') + length (yes_labs r labs)"
      by blast
    then show ?thesis using True d' by (simp add: yes_labs_def)
  next
    case False
    from Cons.prems have "set labs \<subseteq> fst ` set cs" by simp
    from Cons.IH[OF this, of acc] show ?thesis using False by (simp add: yes_labs_def)
  qed
qed

lemma process_rows_result:
  "set labs \<subseteq> fst ` set cs \<Longrightarrow>
   \<exists>cs'. process_rows labs rows acc cs = Inr (acc @ map (summarise labs) rows, cs')
        \<and> map fst cs' = map fst cs
        \<and> sum_list (map snd cs') =
            sum_list (map snd cs) + sum_list (map (\<lambda>r. length (yes_labs r labs)) rows)"
proof (induction rows arbitrary: acc cs)
  case Nil
  then show ?case by simp
next
  case (Cons r rows)
  from scan_labs_result[OF Cons.prems, of r "[]"] obtain c1 where c1:
    "scan_labs r labs [] cs = Inr (yes_labs r labs, c1)" "map fst c1 = map fst cs"
    "sum_list (map snd c1) = sum_list (map snd cs) + length (yes_labs r labs)"
    by auto
  from c1(2) have "fst ` set c1 = fst ` set cs" by (metis set_map)
  with Cons.prems have "set labs \<subseteq> fst ` set c1" by simp
  from Cons.IH[OF this, of "acc @ [summarise labs r]"] obtain cs' where
    "process_rows labs rows (acc @ [summarise labs r]) c1 =
       Inr ((acc @ [summarise labs r]) @ map (summarise labs) rows, cs')"
    "map fst cs' = map fst c1"
    "sum_list (map snd cs') = sum_list (map snd c1) + sum_list (map (\<lambda>r. length (yes_labs r labs)) rows)"
    by blast
  then show ?case using c1 by (simp add: summarise_def)
qed

lemma keys_zero_counts_aux:
  "fst ` set (foldl (\<lambda>d lab. dict_set d lab 0) d labs) = fst ` set d \<union> set labs"
proof (induction labs arbitrary: d)
  case Nil then show ?case by simp
next
  case (Cons l labs)
  have "fst ` set (dict_set d l 0) = insert l (fst ` set d)"
    using keys_dict_set[of d l 0] by (metis (no_types, lifting) insert_absorb list.set_map set_append list.simps(15) Un_insert_right sup_bot.right_neutral set_simps)
  then show ?case using Cons.IH[of "dict_set d l 0"] by auto
qed


subsection \<open>The stable descending sort\<close>

lemma length_insort_desc: "length (insort_desc f x ys) = Suc (length ys)"
  by (induction ys) auto

lemma length_sort_desc: "length (sort_desc f xs) = length xs"
  by (induction xs) (auto simp: sort_desc_def length_insort_desc)

lemma set_insort_desc: "set (insort_desc f x ys) = insert x (set ys)"
  by (induction ys) auto

lemma set_sort_desc: "set (sort_desc f xs) = set xs"
  by (induction xs) (auto simp: sort_desc_def set_insort_desc)

lemma sum_insort_desc: "sum_list (map g (insort_desc f x ys)) = g x + sum_list (map g ys)"
  for g :: "'a \<Rightarrow> nat"
  by (induction ys) auto

lemma sum_sort_desc: "sum_list (map g (sort_desc f xs)) = sum_list (map g xs)"
  for g :: "'a \<Rightarrow> nat"
  by (induction xs) (auto simp: sort_desc_def sum_insort_desc)

lemma filter_insort_desc_in:
  "f x = k \<Longrightarrow> filter (\<lambda>y. f y = k) (insort_desc f x ys) = x # filter (\<lambda>y. f y = k) ys"
  by (induction ys) auto

lemma filter_insort_desc_out:
  "\<not> P x \<Longrightarrow> filter P (insort_desc f x ys) = filter P ys"
  by (induction ys) auto

lemma sorted_insort_desc:
  "sorted_wrt (\<lambda>a b. f b \<le> f a) ys \<Longrightarrow> sorted_wrt (\<lambda>a b. f b \<le> f a) (insort_desc f x ys)"
  by (induction ys) (auto simp: set_insort_desc)

lemma sorted_sort_desc: "sorted_wrt (\<lambda>a b. f b \<le> f a) (sort_desc f xs)"
  by (induction xs) (auto simp: sort_desc_def sorted_insort_desc)

lemma sort_desc_Cons: "sort_desc f (x # xs) = insort_desc f x (sort_desc f xs)"
  by (simp add: sort_desc_def)

lemma sort_desc_stable:
  "filter (\<lambda>x. f x = k) (sort_desc f xs) = filter (\<lambda>x. f x = k) xs"
proof (induction xs)
  case Nil then show ?case by (simp add: sort_desc_def)
next
  case (Cons x xs)
  show ?case
  proof (cases "f x = k")
    case True
    then show ?thesis using Cons.IH by (simp add: sort_desc_Cons filter_insort_desc_in)
  next
    case False
    then show ?thesis using Cons.IH by (simp add: sort_desc_Cons filter_insort_desc_out)
  qed
qed

lemma insort_desc_lex:
  assumes "sorted_wrt (\<lambda>a b. f b < f a \<or> (f a = f b \<and> Q a b)) ys"
    and "\<forall>y\<in>set ys. Q x y"
  shows "sorted_wrt (\<lambda>a b. f b < f a \<or> (f a = f b \<and> Q a b)) (insort_desc f x ys)"
  using assms
proof (induction ys)
  case Nil then show ?case by simp
next
  case (Cons y ys)
  show ?case
  proof (cases "f y \<le> f x")
    case True
    have "\<forall>z\<in>set ys. f z \<le> f y" using Cons.prems(1) by auto
    then have "\<forall>z\<in>set (y # ys). f z < f x \<or> (f x = f z \<and> Q x z)"
      using True Cons.prems(2) by (metis le_less le_trans set_ConsD)
    then show ?thesis using True Cons.prems(1) by simp
  next
    case False
    have "sorted_wrt (\<lambda>a b. f b < f a \<or> (f a = f b \<and> Q a b)) (insort_desc f x ys)"
      using Cons by simp
    then show ?thesis using False Cons.prems(1) by (auto simp: set_insort_desc)
  qed
qed

lemma sort_desc_lex:
  "sorted_wrt Q xs \<Longrightarrow>
   sorted_wrt (\<lambda>a b. f b < f a \<or> (f a = f b \<and> Q a b)) (sort_desc f xs)"
proof (induction xs)
  case Nil then show ?case by (simp add: sort_desc_def)
next
  case (Cons x xs)
  then have "sorted_wrt (\<lambda>a b. f b < f a \<or> (f a = f b \<and> Q a b)) (sort_desc f xs)" by simp
  moreover have "\<forall>y\<in>set (sort_desc f xs). Q x y"
    using Cons.prems by (simp add: set_sort_desc)
  ultimately show ?case by (simp add: sort_desc_Cons insort_desc_lex)
qed


subsection \<open>Tokens, initials and the derived fields\<close>

lemma split_unfold_Nil: "dropWhile isspace s = [] \<Longrightarrow> split s = []"
  by (subst split.simps) (simp only: list.case)

lemma split_unfold_Cons:
  "dropWhile isspace s = c # cs \<Longrightarrow>
   split s = (c # takeWhile (\<lambda>x. \<not> isspace x) cs) # split (dropWhile (\<lambda>x. \<not> isspace x) cs)"
  by (subst split.simps) (simp only: list.case)

lemma dropWhile_head: "dropWhile P xs = y # ys \<Longrightarrow> \<not> P y"
  by (metis hd_dropWhile list.sel(1) list.distinct(1))

lemma split_tokens: "t \<in> set (split s) \<Longrightarrow> t \<noteq> [] \<and> (\<forall>c\<in>set t. \<not> isspace c)"
proof (induction s rule: split.induct)
  case (1 s)
  show ?case
  proof (cases "dropWhile isspace s")
    case Nil
    with "1.prems" show ?thesis by (simp add: split_unfold_Nil)
  next
    case (Cons c cs)
    have c: "\<not> isspace c" using Cons by (rule dropWhile_head)
    from "1.prems" have "t = c # takeWhile (\<lambda>x. \<not> isspace x) cs
        \<or> t \<in> set (split (dropWhile (\<lambda>x. \<not> isspace x) cs))"
      unfolding split_unfold_Cons[OF Cons] by simp
    then show ?thesis
    proof
      assume t: "t = c # takeWhile (\<lambda>x. \<not> isspace x) cs"
      have "\<forall>x\<in>set (takeWhile (\<lambda>x. \<not> isspace x) cs). \<not> isspace x"
        using set_takeWhileD by fastforce
      then show ?thesis using c t by simp
    next
      assume "t \<in> set (split (dropWhile (\<lambda>x. \<not> isspace x) cs))"
      then show ?thesis using "1.IH"[OF Cons] by blast
    qed
  qed
qed

lemma split_concat: "concat (split s) = filter (\<lambda>c. \<not> isspace c) s"
proof (induction s rule: split.induct)
  case (1 s)
  show ?case
  proof (cases "dropWhile isspace s")
    case Nil
    then have "\<forall>x\<in>set s. isspace x" by (simp add: dropWhile_eq_Nil_conv)
    then have "filter (\<lambda>c. \<not> isspace c) s = []" by (simp add: filter_empty_conv)
    then show ?thesis by (simp add: split_unfold_Nil[OF Nil])
  next
    case (Cons c cs)
    let ?tok = "takeWhile (\<lambda>x. \<not> isspace x) cs"
    let ?rem = "dropWhile (\<lambda>x. \<not> isspace x) cs"
    have c: "\<not> isspace c" using Cons by (rule dropWhile_head)
    have f0: "filter (\<lambda>c. \<not> isspace c) (takeWhile isspace s) = []"
      using set_takeWhileD by (fastforce simp: filter_empty_conv)
    have f1: "filter (\<lambda>c. \<not> isspace c) ?tok = ?tok"
      using set_takeWhileD by (fastforce simp: filter_id_conv)
    have "s = takeWhile isspace s @ c # ?tok @ ?rem"
      using Cons by (metis takeWhile_dropWhile_id)
    then have "filter (\<lambda>c. \<not> isspace c) s =
        filter (\<lambda>c. \<not> isspace c) (takeWhile isspace s @ c # ?tok @ ?rem)"
      by simp
    also have "\<dots> = c # ?tok @ filter (\<lambda>c. \<not> isspace c) ?rem"
      using f0 f1 c by (simp del: takeWhile_dropWhile_id)
    finally show ?thesis
      using "1.IH"[OF Cons] by (simp add: split_unfold_Cons[OF Cons])
  qed
qed

lemma get_initials_JStr:
  "get_initials (JStr s) =
     Inr (case split s of
            [] \<Rightarrow> []
          | [t] \<Rightarrow> upper (take 1 t)
          | t1 # t2 # ts \<Rightarrow> upper (take 1 t1) @ upper (take 1 t2))"
proof (cases "split s")
  case Nil
  then show ?thesis by (simp add: get_initials_def)
next
  case (Cons t1 rest)
  then have t1: "t1 \<noteq> []" using split_tokens[of t1 s] by simp
  then obtain a as where a: "t1 = a # as" by (cases t1) auto
  show ?thesis
  proof (cases rest)
    case Nil
    with Cons a show ?thesis by (simp add: get_initials_def str_first_def)
  next
    case (Cons t2 ts)
    then have "t2 \<noteq> []" using split_tokens[of t2 s] \<open>split s = t1 # rest\<close> by simp
    then obtain b bs where b: "t2 = b # bs" by (cases t2) auto
    with Cons \<open>split s = t1 # rest\<close> a show ?thesis
      by (simp add: get_initials_def str_first_def)
  qed
qed

lemma get_initials_ok: "\<exists>i. get_initials (JStr s) = Inr i"
  using get_initials_JStr by blast

lemma round_pct_ok: "b \<noteq> 0 \<Longrightarrow> \<exists>v. round_pct a b = Inr v"
  by (simp add: round_pct_def py_truediv_def)

lemma percentage_guarded_ok: "\<exists>v. percentage_guarded labs c = Inr v"
  by (simp add: percentage_guarded_def round_pct_ok)

lemma add_derived_ok:
  "\<forall>u\<in>set us. \<exists>s. name u = JStr s \<Longrightarrow> \<exists>ps. add_derived labs rk us = Inr ps"
proof (induction us arbitrary: rk)
  case Nil then show ?case by simp
next
  case (Cons u us)
  then obtain s where s: "name u = JStr s" by auto
  obtain i where i: "get_initials (JStr s) = Inr i" using get_initials_ok by blast
  obtain v where v: "percentage_guarded labs (completed_labs u) = Inr v"
    using percentage_guarded_ok by blast
  have "\<forall>u\<in>set us. \<exists>s. name u = JStr s" using Cons.prems by simp
  from Cons.IH[OF this] obtain ps where "add_derived labs (Suc rk) us = Inr ps" by blast
  then show ?case using s i v by simp
qed

lemma add_derived_result:
  "add_derived labs rk us = Inr ps \<Longrightarrow>
     map summary.truncate ps = us \<and> map rank ps = [rk..<rk + length us] \<and>
     (\<forall>p\<in>set ps. get_initials (name p) = Inr (initials p) \<and> badge_count p = completed_labs p \<and>
         percentage_guarded labs (completed_labs p) = Inr (completion_percentage p))"
proof (induction us arbitrary: rk ps)
  case Nil then show ?case by simp
next
  case (Cons u us)
  from Cons.prems obtain i v rest where
    i: "get_initials (name u) = Inr i" and v: "percentage_guarded labs (completed_labs u) = Inr v"
    and rest: "add_derived labs (Suc rk) us = Inr rest"
    and ps: "ps = \<lparr>name = name u, email = email u, completed_labs = completed_labs u,
                   name_of_completed_labs = name_of_completed_labs u, rank = rk, initials = i,
                   badge_count = completed_labs u, completion_percentage = v\<rparr> # rest"
    by (auto split: sum.splits)
  from Cons.IH[OF rest] have ih1: "map summary.truncate rest = us"
    and ih2: "map rank rest = [Suc rk..<Suc rk + length us]"
    and ih3: "\<forall>p\<in>set rest. get_initials (name p) = Inr (initials p) \<and> badge_count p = completed_labs p \<and>
         percentage_guarded labs (completed_labs p) = Inr (completion_percentage p)"
    by blast+
  have upt: "[rk..<rk + length (u # us)] = rk # [Suc rk..<Suc rk + length us]"
    using upt_conv_Cons[of rk "rk + length (u # us)"] by simp
  have "map summary.truncate ps = u # us"
    unfolding ps using ih1 by (simp add: summary.truncate_def)
  moreover have "map rank ps = [rk..<rk + length (u # us)]"
    unfolding ps upt using ih2 by simp
  moreover have "\<forall>p\<in>set ps. get_initials (name p) = Inr (initials p) \<and> badge_count p = completed_labs p \<and>
         percentage_guarded labs (completed_labs p) = Inr (completion_percentage p)"
    unfolding ps using ih3 i v by simp
  ultimately show ?case by blast
qed



subsection \<open>The initial counters\<close>

lemma dict_set_new: "k \<notin> fst ` set d \<Longrightarrow> dict_set d k v = d @ [(k, v)]"
  by (induction d) auto

lemma zero_counts_distinct_aux:
  "distinct (map fst d @ labs) \<Longrightarrow>
   foldl (\<lambda>d lab. dict_set d lab 0) d labs = d @ map (\<lambda>l. (l, 0)) labs"
proof (induction labs arbitrary: d)
  case Nil then show ?case by simp
next
  case (Cons l labs)
  then have l: "l \<notin> fst ` set d" by auto
  have "distinct (map fst (d @ [(l, 0)]) @ labs)" using Cons.prems by auto
  from Cons.IH[OF this] show ?case using l by (simp add: dict_set_new)
qed

lemma zero_counts_distinct: "distinct labs \<Longrightarrow> zero_counts labs = map (\<lambda>l. (l, 0)) labs"
  using zero_counts_distinct_aux[of "[]" labs] by (simp add: zero_counts_def)

lemma keys_zero_counts: "fst ` set (zero_counts labs) = set labs"
  by (simp add: zero_counts_def keys_zero_counts_aux)

lemma dict_set_values: "e \<in> set (dict_set d k v) \<Longrightarrow> snd e = v \<or> e \<in> set d"
  by (induction d) (auto split: if_splits)

lemma values_zero_counts_aux:
  "\<forall>e\<in>set d. snd e = 0 \<Longrightarrow>
   \<forall>e\<in>set (foldl (\<lambda>d lab. dict_set d lab 0) d labs). snd e = 0"
proof (induction labs arbitrary: d)
  case Nil then show ?case by simp
next
  case (Cons l labs)
  have "\<forall>e\<in>set (dict_set d l 0). snd e = 0"
    using dict_set_values[of _ d l 0] Cons.prems by blast
  from Cons.IH[OF this] show ?case by simp
qed

lemma values_zero_counts: "e \<in> set (zero_counts labs) \<Longrightarrow> snd e = 0"
  using values_zero_counts_aux[of "[]" labs] by (simp add: zero_counts_def)

lemma sum_zero_counts: "sum_list (map snd (zero_counts labs)) = 0"
  using values_zero_counts by (auto simp: sum_list_eq_0_iff)

lemma dict_get_member: "dict_get d k = Inr v \<Longrightarrow> (k, v) \<in> set d"
  by (induction d) (auto split: if_splits)

lemma dict_get_zero_counts: "lab \<in> set labs \<Longrightarrow> dict_get (zero_counts labs) lab = Inr 0"
proof -
  assume "lab \<in> set labs"
  then have "lab \<in> fst ` set (zero_counts labs)" by (simp add: keys_zero_counts)
  then obtain c where c: "dict_get (zero_counts labs) lab = Inr c"
    using dict_get_present by blast
  then have "c = 0" using dict_get_member values_zero_counts by fastforce
  with c show ?thesis by simp
qed

subsection \<open>The aggregator as a whole\<close>

lemma gppd_Inl: "get_processed_participant_data labs (Inl e) = Inr ([], zero_counts labs)"
  by (simp add: get_processed_participant_data_def)

lemma process_rows_zero:
  "\<exists>cs. process_rows labs raw [] (zero_counts labs) = Inr (map (summarise labs) raw, cs)
      \<and> map fst cs = map fst (zero_counts labs)
      \<and> sum_list (map snd cs) = sum_list (map (\<lambda>r. length (yes_labs r labs)) raw)"
proof -
  have "set labs \<subseteq> fst ` set (zero_counts labs)" by (simp add: keys_zero_counts)
  from process_rows_result[OF this, of raw "[]"] show ?thesis
    by (simp add: sum_zero_counts)
qed

lemma gppd_result:
  assumes "get_processed_participant_data labs (Inr raw) = Inr (ps, cs)"
  shows "map summary.truncate ps = sort_desc completed_labs (map (summarise labs) raw)"
    and "map rank ps = [1..<Suc (length raw)]"
    and "\<forall>p\<in>set ps. get_initials (name p) = Inr (initials p) \<and> badge_count p = completed_labs p \<and>
         percentage_guarded labs (completed_labs p) = Inr (completion_percentage p)"
    and "map fst cs = map fst (zero_counts labs)"
    and "sum_list (map snd cs) = sum_list (map (\<lambda>r. length (yes_labs r labs)) raw)"
proof -
  obtain cs0 where cs0: "process_rows labs raw [] (zero_counts labs) = Inr (map (summarise labs) raw, cs0)"
      "map fst cs0 = map fst (zero_counts labs)"
      "sum_list (map snd cs0) = sum_list (map (\<lambda>r. length (yes_labs r labs)) raw)"
    using process_rows_zero by blast
  from assms cs0(1) have ad: "add_derived labs 1 (sort_desc completed_labs (map (summarise labs) raw)) = Inr ps"
    and cs: "cs = cs0"
    by (auto simp: get_processed_participant_data_def split: sum.splits)
  from add_derived_result[OF ad] show 
    "map summary.truncate ps = sort_desc completed_labs (map (summarise labs) raw)"
    "map rank ps = [1..<Suc (length raw)]"
    "\<forall>p\<in>set ps. get_initials (name p) = Inr (initials p) \<and> badge_count p = completed_labs p \<and>
         percentage_guarded labs (completed_labs p) = Inr (completion_percentage p)"
    by (simp_all add: length_sort_desc)
  from cs cs0 show "map fst cs = map fst (zero_counts labs)"
    "sum_list (map snd cs) = sum_list (map (\<lambda>r. length (yes_labs r labs)) raw)"
    by simp_all
qed

lemma gppd_ok:
  assumes "\<forall>r\<in>set raw. \<exists>s. row_get r ''name'' (JStr ''N/A'') = JStr s"
  shows "\<exists>ps cs. get_processed_participant_data labs (Inr raw) = Inr (ps, cs)"
proof -
  obtain cs0 where cs0: "process_rows labs raw [] (zero_counts labs) = Inr (map (summarise labs) raw, cs0)"
    using process_rows_zero by blast
  have "\<forall>u\<in>set (sort_desc completed_labs (map (summarise labs) raw)). \<exists>s. name u = JStr s"
    using assms by (auto simp: set_sort_desc summarise_def)
  from add_derived_ok[OF this] obtain ps where
    "add_derived labs 1 (sort_desc completed_labs (map (summarise labs) raw)) = Inr ps" by blast
  with cs0 show ?thesis by (simp add: get_processed_participant_data_def)
qed

subsection \<open>The older copy against the newer file\<close>

lemma sum_ones: "sum_list (map (\<lambda>x. Suc 0) xs) = length xs"
  by (induction xs) auto

lemma foldl_append_if:
  "foldl (\<lambda>acc x. if P x then acc @ [x] else acc) acc xs = acc @ filter P xs"
  by (induction xs arbitrary: acc) auto

lemma ranking_rows_ok:
  "\<forall>r\<in>set rows. r ''name'' \<noteq> None \<and> r ''email'' \<noteq> None \<Longrightarrow>
   ranking_rows L rows acc = Inr (acc @ map (\<lambda>r. to_ranking (summarise L r)) rows)"
proof (induction rows arbitrary: acc)
  case Nil then show ?case by simp
next
  case (Cons r rows)
  then obtain nm em where nm: "r ''name'' = Some nm" and em: "r ''email'' = Some em" by auto
  have "ranking_rows L rows (acc @ [to_ranking (summarise L r)])
        = Inr ((acc @ [to_ranking (summarise L r)]) @ map (\<lambda>r. to_ranking (summarise L r)) rows)"
    using Cons by simp
  then show ?case using nm em
    by (simp add: row_index_def row_get_def to_ranking_def summarise_def yes_labs_def
        foldl_append_if sum_ones Let_def)
qed

lemma ranking_rows_missing:
  "\<exists>r\<in>set rows. r ''name'' = None \<or> r ''email'' = None \<Longrightarrow>
   \<exists>k. ranking_rows L rows acc = Inl (KeyError k)"
proof (induction rows arbitrary: acc)
  case Nil then show ?case by simp
next
  case (Cons r rows)
  show ?case
  proof (cases "r ''name'' = None \<or> r ''email'' = None")
    case True
    then show ?thesis by (auto simp: row_index_def Let_def split: option.splits)
  next
    case False
    then obtain nm em where nm: "r ''name'' = Some nm" and em: "r ''email'' = Some em" by auto
    from False Cons.prems have "\<exists>r\<in>set rows. r ''name'' = None \<or> r ''email'' = None" by auto
    from Cons.IH[OF this] show ?thesis using nm em by (simp add: row_index_def Let_def)
  qed
qed

lemma insort_desc_map:
  "insort_desc f (g x) (map g ys) = map g (insort_desc (\<lambda>y. f (g y)) x ys)"
  by (induction ys) auto

lemma sort_desc_map: "sort_desc f (map g xs) = map g (sort_desc (\<lambda>y. f (g y)) xs)"
  by (induction xs) (simp_all add: sort_desc_def insort_desc_map)

lemma rank_users_add_derived:
  "rank_users rk (map to_ranking us) =
     (case add_derived labs rk us of Inl e \<Rightarrow> Inl e | Inr ps \<Rightarrow> Inr (map to_main ps))"
proof (induction us arbitrary: rk)
  case Nil then show ?case by simp
next
  case (Cons u us)
  obtain v where v: "percentage_guarded labs (completed_labs u) = Inr v"
    using percentage_guarded_ok by blast
  show ?case using Cons[of "Suc rk"] v
    by (simp add: to_ranking_def to_main_def split: sum.splits)
qed

lemma get_participant_data_as_newer:
  assumes "\<forall>r\<in>set raw. r ''name'' \<noteq> None \<and> r ''email'' \<noteq> None"
  shows "get_participant_data L (Inr raw) =
     (case get_processed_participant_data L (Inr raw) of
        Inl e \<Rightarrow> Inl e
      | Inr (ps, cs) \<Rightarrow> Inr (map to_main ps))"
proof -
  obtain cs0 where cs0: "process_rows L raw [] (zero_counts L) = Inr (map (summarise L) raw, cs0)"
    using process_rows_zero by blast
  have rr: "ranking_rows L raw [] = Inr (map to_ranking (map (summarise L) raw))"
    using ranking_rows_ok[OF assms, of L "[]"] by simp
  have so: "sort_desc completed (map to_ranking (map (summarise L) raw))
      = map to_ranking (sort_desc completed_labs (map (summarise L) raw))"
    by (simp add: sort_desc_map to_ranking_def)
  have gp: "get_participant_data L (Inr raw)
      = rank_users 1 (map to_ranking (sort_desc completed_labs (map (summarise L) raw)))"
    unfolding get_participant_data_def using rr so by (simp del: map_map)
  have gn: "get_processed_participant_data L (Inr raw)
      = (case add_derived L 1 (sort_desc completed_labs (map (summarise L) raw)) of
           Inl e \<Rightarrow> Inl e | Inr ps \<Rightarrow> Inr (ps, cs0))"
    unfolding get_processed_participant_data_def using cs0 by simp
  show ?thesis
    unfolding gp gn rank_users_add_derived[of 1 _ L]
    by (simp split: sum.splits)
qed

lemma add_progress_result:
  "labs \<noteq> [] \<Longrightarrow>
   \<forall>p\<in>set ps. badge_count p = completed_labs p \<and>
         percentage_guarded labs (completed_labs p) = Inr (completion_percentage p) \<Longrightarrow>
   add_progress labs (map to_main ps) = Inr (map to_progress ps)"
  by (induction ps) (auto simp: to_main_def to_progress_def percentage_guarded_def)

lemma add_progress_empty_catalog:
  "ps \<noteq> [] \<Longrightarrow> add_progress [] ps = Inl ZeroDivisionError"
  by (cases ps) (auto simp: round_pct_def py_truediv_def)

lemma LAB_NAMES_LABS: "LAB_NAMES = LABS"
  by (simp add: LAB_NAMES_def LABS_def)

subsection \<open>Percentages\<close>

lemma round_pct_zero: "n \<noteq> 0 \<Longrightarrow> round_pct 0 n = Inr 0"
  by (simp add: round_pct_def py_truediv_def fl_quot_def fl_mul_def py_round_def
      bit_length.simps)

lemma get_stats_Inl: "get_stats labs (Inl e) = Inr (empty_home (zero_counts labs))"
  by (simp add: get_stats_def gppd_Inl empty_home_def)

lemma get_progress_data_Inl: "get_progress_data labs (Inl e) = Inr (labs, [])"
  by (simp add: get_progress_data_def gppd_Inl)



lemma fl_quot_same: "0 < n \<Longrightarrow> fl_quot n n = (2 ^ 52, - 52)"
proof -
  assume n: "0 < n"
  have "rne_div (n * 2 ^ 52) n = 2 ^ 52"
    using n by (simp add: rne_div_def)
  then show ?thesis using n by (simp add: fl_quot_def Let_def)
qed

lemma hundred_ones: "py_round (fl_mul (2 ^ 52, - 52) 100) = 100"
  by code_simp

lemma round_pct_same: "0 < n \<Longrightarrow> round_pct n n = Inr 100"
proof -
  assume n: "0 < n"
  then have "round_pct n n = Inr (py_round (fl_mul (fl_quot n n) 100))"
    by (simp add: round_pct_def py_truediv_def)
  also have "\<dots> = Inr 100"
    unfolding fl_quot_same[OF n] hundred_ones ..
  finally show ?thesis .
qed


subsection \<open>The home statistics\<close>

lemma completed_labs_truncate: "completed_labs (summary.truncate p) = completed_labs p"
  by (simp add: summary.truncate_def)

lemma filter_count_truncate:
  "filter (\<lambda>u. completed_labs u = k) (map summary.truncate ps)
     = map summary.truncate (filter (\<lambda>p. completed_labs p = k) ps)"
  by (simp add: filter_map o_def completed_labs_truncate)

lemma gppd_length:
  assumes "get_processed_participant_data labs (Inr raw) = Inr (ps, cs)"
  shows "length ps = length raw"
proof -
  have "length (map summary.truncate ps) = length (sort_desc completed_labs (map (summarise labs) raw))"
    using gppd_result(1)[OF assms] by simp
  then show ?thesis by (simp add: length_sort_desc)
qed

lemma gppd_count_with:
  assumes "get_processed_participant_data labs (Inr raw) = Inr (ps, cs)"
  shows "length (filter (\<lambda>p. completed_labs p = k) ps)
       = length (filter (\<lambda>r. length (yes_labs r labs) = k) raw)"
proof -
  have "length (filter (\<lambda>p. completed_labs p = k) ps)
      = length (filter (\<lambda>u. completed_labs u = k) (map summary.truncate ps))"
    by (simp add: filter_count_truncate)
  also have "\<dots> = length (filter (\<lambda>u. completed_labs u = k) (map (summarise labs) raw))"
    unfolding gppd_result(1)[OF assms] sort_desc_stable ..
  also have "\<dots> = length (filter (\<lambda>r. length (yes_labs r labs) = k) raw)"
    by (simp add: filter_map o_def summarise_def)
  finally show ?thesis .
qed

lemma get_stats_ok:
  assumes "\<forall>r\<in>set raw. \<exists>s. row_get r ''name'' (JStr ''N/A'') = JStr s"
  shows "\<exists>h. get_stats labs (Inr raw) = Inr h"
proof -
  from gppd_ok[OF assms] obtain ps cs where
    g: "get_processed_participant_data labs (Inr raw) = Inr (ps, cs)" by blast
  show ?thesis
  proof (cases ps)
    case Nil
    then show ?thesis using g by (simp add: get_stats_def)
  next
    case (Cons p ps')
    then show ?thesis using g by (simp add: get_stats_def py_truediv_def Let_def)
  qed
qed

lemma get_stats_percentage:
  assumes "get_stats labs (Inr raw) = Inr h" and "raw \<noteq> []"
  shows "round_pct (int (fully_finished labs raw)) (int (length raw))
           = Inr (home_completion_percentage h)"
proof -
  from assms(1) obtain ps cs where
    g: "get_processed_participant_data labs (Inr raw) = Inr (ps, cs)"
    by (auto simp: get_stats_def split: sum.splits)
  have len: "length ps = length raw" using g by (rule gppd_length)
  with assms(2) obtain p ps' where ps: "ps = p # ps'" by (cases ps) auto
  have cnt: "length (filter (\<lambda>p. completed_labs p = length labs) ps) = fully_finished labs raw"
    unfolding fully_finished_def using g by (rule gppd_count_with)
  have "home_completion_percentage h
      = py_round (fl_mul (fl_quot (int (length (filter (\<lambda>p. completed_labs p = length labs) ps)))
                                   (int (length ps))) 100)"
    using assms(1) g ps by (auto simp: get_stats_def py_truediv_def Let_def)
  then show ?thesis
    unfolding cnt len using assms(2) by (simp add: round_pct_def py_truediv_def)
qed

lemma example_newer:
  "map_sum id home_completion_percentage (get_stats LABS (Inr [row_A, row_B])) = Inr 50"
  by code_simp

subsection \<open>Ranks and order\<close>

lemma ranking_rows_missing':
  "\<not> (\<forall>r\<in>set rows. has_keys r) \<Longrightarrow> \<exists>k. ranking_rows L rows acc = Inl (KeyError k)"
  using ranking_rows_missing[of rows L acc] by (simp add: has_keys_def)

lemma get_participant_data_as_newer':
  "\<forall>r\<in>set raw. has_keys r \<Longrightarrow> get_participant_data L (Inr raw) =
     (case get_processed_participant_data L (Inr raw) of
        Inl e \<Rightarrow> Inl e
      | Inr (ps, cs) \<Rightarrow> Inr (map to_main ps))"
  using get_participant_data_as_newer[of raw L] by (simp add: has_keys_def)

lemma older_keys:
  assumes "get_participant_data L (Inr raw) = Inr ms"
  shows "\<forall>r\<in>set raw. has_keys r"
proof (rule ccontr)
  assume "\<not> ?thesis"
  from ranking_rows_missing'[OF this, of L "[]"] obtain k where
    k: "ranking_rows L raw [] = Inl (KeyError k)" by blast
  have "get_participant_data L (Inr raw) = Inl (KeyError k)"
    unfolding get_participant_data_def by (simp add: k)
  with assms show False by simp
qed

lemma older_Inr:
  assumes "get_participant_data L (Inr raw) = Inr ms"
  shows "\<exists>ps cs. get_processed_participant_data L (Inr raw) = Inr (ps, cs) \<and> ms = map to_main ps"
proof -
  note eq = get_participant_data_as_newer'[OF older_keys[OF assms], of L]
  show ?thesis
  proof (cases "get_processed_participant_data L (Inr raw)")
    case (Inl e)
    with eq assms show ?thesis by simp
  next
    case (Inr pc)
    obtain ps cs where pc: "pc = (ps, cs)" by (cases pc)
    from eq assms Inr pc have "ms = map to_main ps" by simp
    with Inr pc show ?thesis by blast
  qed
qed

lemma gppd_sorted:
  assumes "get_processed_participant_data labs (Inr raw) = Inr (ps, cs)"
  shows "sorted_wrt (\<lambda>p q. completed_labs q \<le> completed_labs p) ps"
proof -
  have "sorted_wrt (\<lambda>p q. completed_labs q \<le> completed_labs p) (map summary.truncate ps)"
    unfolding gppd_result(1)[OF assms] by (rule sorted_sort_desc)
  then show ?thesis by (simp add: sorted_wrt_map completed_labs_truncate)
qed

lemma by_rank:
  assumes ranks: "map rk ps = [1..<Suc (length ps)]"
    and sorted: "sorted_wrt (\<lambda>p q. c q \<le> c p) ps"
    and p: "p \<in> set ps" and q: "q \<in> set ps" and lt: "rk p < rk q"
  shows "c q \<le> (c p :: nat)"
proof -
  from p obtain i where i: "i < length ps" "ps ! i = p" by (auto simp: in_set_conv_nth)
  from q obtain j where j: "j < length ps" "ps ! j = q" by (auto simp: in_set_conv_nth)
  have nth: "\<And>n. n < length ps \<Longrightarrow> rk (ps ! n) = Suc n"
  proof -
    fix n assume n: "n < length ps"
    then have "rk (ps ! n) = map rk ps ! n" by simp
    also have "\<dots> = [1..<Suc (length ps)] ! n" by (simp only: ranks)
    also have "\<dots> = Suc n" using n nth_upt[of 1 n "Suc (length ps)"] by (simp del: upt_Suc)
    finally show "rk (ps ! n) = Suc n" .
  qed
  from nth[OF i(1)] nth[OF j(1)] lt i(2) j(2) have "i < j" by simp
  with sorted j(1) have "c (ps ! j) \<le> c (ps ! i)"
    by (simp add: sorted_wrt_iff_nth_less)
  then show ?thesis using i(2) j(2) by simp
qed

lemma gppd_stable:
  assumes "get_processed_participant_data labs (Inr raw) = Inr (ps, cs)"
  shows "map summary.truncate (filter (\<lambda>p. completed_labs p = k) ps)
       = filter (\<lambda>u. completed_labs u = k) (map (summarise labs) raw)"
proof -
  have "map summary.truncate (filter (\<lambda>p. completed_labs p = k) ps)
      = filter (\<lambda>u. completed_labs u = k) (map summary.truncate ps)"
    by (simp add: filter_count_truncate)
  also have "\<dots> = filter (\<lambda>u. completed_labs u = k) (map (summarise labs) raw)"
    unfolding gppd_result(1)[OF assms] sort_desc_stable ..
  finally show ?thesis .
qed

lemma shown_truncate: "shown (summary.truncate p) = shown p"
  by (simp add: shown_def summary.truncate_def)

lemma shown_main_to_main: "shown_main (to_main p) = shown p"
  by (simp add: shown_def shown_main_def to_main_def)

lemma gppd_stable_shown:
  assumes "get_processed_participant_data labs (Inr raw) = Inr (ps, cs)"
  shows "map shown (filter (\<lambda>p. completed_labs p = k) ps)
       = map shown (filter (\<lambda>u. completed_labs u = k) (map (summarise labs) raw))"
proof -
  have "map shown (filter (\<lambda>p. completed_labs p = k) ps)
      = map shown (map summary.truncate (filter (\<lambda>p. completed_labs p = k) ps))"
    by (simp add: shown_truncate)
  then show ?thesis unfolding gppd_stable[OF assms] .
qed

lemma older_stable_shown:
  assumes "get_participant_data labs (Inr raw) = Inr ms"
  shows "map shown_main (filter (\<lambda>m. m_completed_labs m = k) ms)
       = map shown (filter (\<lambda>u. completed_labs u = k) (map (summarise labs) raw))"
proof -
  from older_Inr[OF assms] obtain ps cs where
    g: "get_processed_participant_data labs (Inr raw) = Inr (ps, cs)" and ms: "ms = map to_main ps"
    by blast
  have "filter (\<lambda>m. m_completed_labs m = k) ms = map to_main (filter (\<lambda>p. completed_labs p = k) ps)"
    unfolding ms by (simp add: filter_map o_def to_main_def)
  then have "map shown_main (filter (\<lambda>m. m_completed_labs m = k) ms)
      = map shown (filter (\<lambda>p. completed_labs p = k) ps)"
    by (simp add: shown_main_to_main)
  then show ?thesis unfolding gppd_stable_shown[OF g] .
qed

subsection \<open>The examples, evaluated\<close>

lemma demo_newer:
  "get_processed_participant_data demo_labs (Inr demo_rows) = Inr (demo_out, demo_counts)"
  by code_simp

lemma demo_older: "get_participant_data demo_labs (Inr demo_rows) = Inr demo_out_main"
  by code_simp

lemma demo_summaries:
  "filter (\<lambda>u. completed_labs u = 1) (map (summarise demo_labs) demo_rows)
     = [summarise demo_labs row_C, summarise demo_labs row_D]"
  by code_simp

section \<open>The claims\<close>

subsection \<open>C9: initials\<close>



subsection \<open>C1: the completion percentage of the home statistics\<close>

text \<open>
  C1, as amended. In \<^verbatim>\<open>app.py\<close>, for every non-empty record set on which
  \<^verbatim>\<open>get_stats\<close> returns, the \<^verbatim>\<open>completion_percentage\<close> of the payload is
  \<^verbatim>\<open>round((full / total) * 100)\<close>, where \<^verbatim>\<open>full\<close> is the number of input rows with
  every catalog lab completed and \<^verbatim>\<open>total\<close> the number of rows: the fully-finished
  rate. It returns whenever the name of every row is absent or a string.
\<close>

theorem home_completion_percentage_newer:
  "(get_stats labs (Inr raw) = Inr h \<and> raw \<noteq> [] \<longrightarrow>
      round_pct (int (fully_finished labs raw)) (int (length raw))
        = Inr (home_completion_percentage h))
   \<and> ((\<forall>r\<in>set raw. \<exists>s. row_get r ''name'' (JStr ''N/A'') = JStr s) \<longrightarrow>
        (\<exists>h'. get_stats labs (Inr raw) = Inr h'))"
  using get_stats_percentage get_stats_ok by blast

text \<open>The example of the specification: A with 19 labs, B with none, gives 50.\<close>

theorem home_completion_percentage_newer_witness:
  "map_sum id home_completion_percentage (get_stats LABS (Inr [row_A, row_B])) = Inr 50
   \<and> [row_A, row_B] \<noteq> []
   \<and> round_pct (int (fully_finished LABS [row_A, row_B])) (int (length [row_A, row_B])) = Inr 50"
proof -
  obtain h where h: "get_stats LABS (Inr [row_A, row_B]) = Inr h"
    using example_newer by (cases "get_stats LABS (Inr [row_A, row_B])") auto
  then have "home_completion_percentage h = 50" using example_newer by simp
  moreover have "round_pct (int (fully_finished LABS [row_A, row_B])) (int (length [row_A, row_B]))
        = Inr (home_completion_percentage h)"
    using home_completion_percentage_newer[of LABS "[row_A, row_B]" h] h by blast
  ultimately show ?thesis using example_newer by simp
qed

text \<open>
  The claim as stated covers the older copy as well, and fails there: with the single
  participant A, who has finished every lab, the fully-finished rate is 100, and the
  older \<^verbatim>\<open>get_stats\<close> reports 95.
\<close>

theorem home_completion_percentage_older_counterexample:
  "map_sum id home_completion_percentage (get_stats_main LABS LAB_NAMES (Inr [row_A])) = Inr 95
   \<and> round_pct (int (fully_finished LABS [row_A])) (int (length [row_A])) = Inr 100"
  by code_simp


subsection \<open>C3: failure of the store read\<close>

text \<open>
  C3, as amended. In \<^verbatim>\<open>app.py\<close>, when the read of the store raises, the aggregator
  returns the empty list and a counter dict with exactly the catalog labs as keys,
  each at 0; both endpoints return (status 200): the home statistics the canonical
  empty payload, the progress listing the catalog and no participant.
\<close>

theorem store_failure_newer:
  "get_processed_participant_data labs (Inl e) = Inr ([], zero_counts labs)
   \<and> fst ` set (zero_counts labs) = set labs
   \<and> (\<forall>lab\<in>set labs. dict_get (zero_counts labs) lab = Inr 0)
   \<and> get_stats labs (Inl e) = Inr (empty_home (zero_counts labs))
   \<and> get_progress_data labs (Inl e) = Inr (labs, [])
   \<and> http_status (get_stats labs (Inl e)) = 200
   \<and> http_status (get_progress_data labs (Inl e)) = 200"
  by (simp add: gppd_Inl keys_zero_counts dict_get_zero_counts get_stats_Inl
      get_progress_data_Inl http_status_def)

text \<open>The statement at the catalog of the application.\<close>

theorem store_failure_newer_witness:
  "''Get Started with Looker'' \<in> set LABS
   \<and> dict_get (zero_counts LABS) ''Get Started with Looker'' = Inr 0
   \<and> get_stats LABS (Inl StoreError) = Inr (empty_home (zero_counts LABS))"
proof -
  have m: "''Get Started with Looker'' \<in> set LABS" by (simp add: LABS_def)
  from store_failure_newer[of LABS StoreError] m show ?thesis by blast
qed

text \<open>
  The claim as stated covers the older copy as well, and fails there: its
  \<^verbatim>\<open>get_participant_data\<close> has no handler, the exception escapes both view functions,
  and the response is an HTTP 500.
\<close>

theorem store_failure_older_counterexample:
  "get_participant_data LAB_NAMES (Inl StoreError) = Inl StoreError
   \<and> get_stats_main LABS LAB_NAMES (Inl StoreError) = Inl StoreError
   \<and> get_progress_data_main LABS LAB_NAMES (Inl StoreError) = Inl StoreError
   \<and> http_status (get_stats_main LABS LAB_NAMES (Inl StoreError)) = 500
   \<and> http_status (get_progress_data_main LABS LAB_NAMES (Inl StoreError)) = 500"
  by (simp add: get_participant_data_def get_stats_main_def get_progress_data_main_def
      http_status_def)

subsection \<open>C4: ranks\<close>

text \<open>
  C4. For every catalog and every set of N records on which the aggregator returns,
  the ranks of the output, read in order, are 1, 2, ..., N: each integer of that range
  once, no gap, no rank shared. The output is in non-increasing order of
  completed-count, and so a participant of smaller rank never has a smaller count than
  one of larger rank. This holds for \<^verbatim>\<open>get_processed_participant_data\<close> of
  \<^verbatim>\<open>app.py\<close> and for \<^verbatim>\<open>get_participant_data\<close> of the older copy.
\<close>

theorem ranks_dense_and_ordered:
  "(get_processed_participant_data labs (Inr raw) = Inr (ps, cs) \<longrightarrow>
      map rank ps = [1..<Suc (length raw)]
      \<and> sorted_wrt (\<lambda>p q. completed_labs q \<le> completed_labs p) ps
      \<and> (\<forall>p\<in>set ps. \<forall>q\<in>set ps. rank p < rank q \<longrightarrow> completed_labs q \<le> completed_labs p))
   \<and> (get_participant_data labs (Inr raw) = Inr ms \<longrightarrow>
      map m_rank ms = [1..<Suc (length raw)]
      \<and> sorted_wrt (\<lambda>p q. m_completed_labs q \<le> m_completed_labs p) ms
      \<and> (\<forall>p\<in>set ms. \<forall>q\<in>set ms. m_rank p < m_rank q \<longrightarrow> m_completed_labs q \<le> m_completed_labs p))"
proof (intro conjI impI)
  assume g: "get_processed_participant_data labs (Inr raw) = Inr (ps, cs)"
  show r: "map rank ps = [1..<Suc (length raw)]" using g by (rule gppd_result(2))
  show s: "sorted_wrt (\<lambda>p q. completed_labs q \<le> completed_labs p) ps" using g by (rule gppd_sorted)
  have "map rank ps = [1..<Suc (length ps)]" using r gppd_length[OF g] by simp
  then show "\<forall>p\<in>set ps. \<forall>q\<in>set ps. rank p < rank q \<longrightarrow> completed_labs q \<le> completed_labs p"
    using by_rank[of rank ps completed_labs] s by blast
next
  assume o: "get_participant_data labs (Inr raw) = Inr ms"
  from older_Inr[OF o] obtain ps cs where
    g: "get_processed_participant_data labs (Inr raw) = Inr (ps, cs)" and ms: "ms = map to_main ps"
    by blast
  have mr: "map m_rank ms = map rank ps" unfolding ms by (simp add: to_main_def)
  then show r: "map m_rank ms = [1..<Suc (length raw)]" using gppd_result(2)[OF g] by simp
  show s: "sorted_wrt (\<lambda>p q. m_completed_labs q \<le> m_completed_labs p) ms"
    unfolding ms using gppd_sorted[OF g] by (simp add: sorted_wrt_map to_main_def)
  have "length ms = length raw" unfolding ms using gppd_length[OF g] by simp
  then have "map m_rank ms = [1..<Suc (length ms)]" using r by simp
  then show "\<forall>p\<in>set ms. \<forall>q\<in>set ms. m_rank p < m_rank q \<longrightarrow> m_completed_labs q \<le> m_completed_labs p"
    using by_rank[of m_rank ms m_completed_labs] s by blast
qed

text \<open>The statement at the three rows C, D, E: E has two labs, C and D one each.\<close>

theorem ranks_dense_and_ordered_witness:
  "get_processed_participant_data demo_labs (Inr demo_rows) = Inr (demo_out, demo_counts)
   \<and> map rank demo_out = [1, 2, 3]
   \<and> get_participant_data demo_labs (Inr demo_rows) = Inr demo_out_main
   \<and> map m_rank demo_out_main = [1, 2, 3]
   \<and> demo_out ! 0 \<in> set demo_out \<and> demo_out ! 2 \<in> set demo_out
   \<and> rank (demo_out ! 0) < rank (demo_out ! 2)
   \<and> completed_labs (demo_out ! 2) \<le> completed_labs (demo_out ! 0)"
proof -
  note t = ranks_dense_and_ordered[of demo_labs demo_rows demo_out demo_counts demo_out_main]
  have a: "map rank demo_out = [1..<Suc (length demo_rows)]"
    and b: "\<forall>p\<in>set demo_out. \<forall>q\<in>set demo_out. rank p < rank q \<longrightarrow> completed_labs q \<le> completed_labs p"
    using t demo_newer by blast+
  have c: "map m_rank demo_out_main = [1..<Suc (length demo_rows)]"
    using t demo_older by blast
  have up: "[1..<Suc (length demo_rows)] = [1, 2, 3]"
    by (simp add: demo_rows_def upt_rec)
  have m: "demo_out ! 0 \<in> set demo_out" "demo_out ! 2 \<in> set demo_out"
    by (simp_all add: demo_out_def)
  have lt: "rank (demo_out ! 0) < rank (demo_out ! 2)"
    by (simp add: demo_out_def)
  from b m lt have "completed_labs (demo_out ! 2) \<le> completed_labs (demo_out ! 0)" by blast
  then show ?thesis using a c up m lt demo_newer demo_older by simp
qed

subsection \<open>C5: stability of the sort\<close>

text \<open>
  C5. The sort by completed-count is stable: for every count \<open>k\<close>, the participants
  of the output with that count are the input rows with that count, in the order of
  the input. So two participants with equal counts keep their relative input order.
  This holds for both files.
\<close>

theorem sort_is_stable:
  "(get_processed_participant_data labs (Inr raw) = Inr (ps, cs) \<longrightarrow>
      map summary.truncate (filter (\<lambda>p. completed_labs p = k) ps)
        = filter (\<lambda>u. completed_labs u = k) (map (summarise labs) raw))
   \<and> (get_participant_data labs (Inr raw) = Inr ms \<longrightarrow>
      map shown_main (filter (\<lambda>m. m_completed_labs m = k) ms)
        = map shown (filter (\<lambda>u. completed_labs u = k) (map (summarise labs) raw)))"
  using gppd_stable older_stable_shown by blast

text \<open>
  The statement at the rows C, D, E and the count 1: C and D both have one lab, and
  stay in that order behind E.
\<close>

theorem sort_is_stable_witness:
  "get_processed_participant_data demo_labs (Inr demo_rows) = Inr (demo_out, demo_counts)
   \<and> map summary.truncate (filter (\<lambda>p. completed_labs p = 1) demo_out)
       = [summarise demo_labs row_C, summarise demo_labs row_D]
   \<and> get_participant_data demo_labs (Inr demo_rows) = Inr demo_out_main
   \<and> map shown_main (filter (\<lambda>m. m_completed_labs m = 1) demo_out_main)
       = [shown (summarise demo_labs row_C), shown (summarise demo_labs row_D)]"
proof -
  note t = sort_is_stable[of demo_labs demo_rows demo_out demo_counts 1 demo_out_main]
  have "map summary.truncate (filter (\<lambda>p. completed_labs p = 1) demo_out)
       = filter (\<lambda>u. completed_labs u = 1) (map (summarise demo_labs) demo_rows)"
    using t demo_newer by blast
  moreover have "map shown_main (filter (\<lambda>m. m_completed_labs m = 1) demo_out_main)
       = map shown (filter (\<lambda>u. completed_labs u = 1) (map (summarise demo_labs) demo_rows))"
    using t demo_older by blast
  ultimately show ?thesis using demo_newer demo_older unfolding demo_summaries by simp
qed

end
